theory Spec2Isabelle
  imports Complex_Main "HOL-Library.Log_Nat"
begin

section \<open>Tables\<close>

text \<open>
  Both scripts work on a pandas DataFrame obtained from \<^verbatim>\<open>pd.read_csv\<close>. A cell of such
  a table is a missing value, a finite number, one of the two infinities (\<^verbatim>\<open>read_csv\<close>
  reads \<^verbatim>\<open>inf\<close> and \<^verbatim>\<open>-inf\<close> as such), a string or a truth value. A finite number is
  given by its value, a rational; the two zeros of the floating-point format are not told
  apart, as in every comparison pandas makes.
\<close>

datatype cell = NaN | Number rat | PosInf | NegInf | Text string | Boolean bool

datatype dtype = Float64 | Int64 | Float32 | Int32 | Bool_dtype | Object

text \<open>
  A frame has labelled, typed columns and an ordered sequence of rows; a row holds one cell
  per column. \<^verbatim>\<open>read_csv\<close> makes the column labels unique, so that \<^verbatim>\<open>df[col]\<close> selects
  one column; the loop over column labels is a loop over column positions here.
\<close>

record frame =
  columns :: "(string \<times> dtype) list"
  rows :: "cell list list"

subsection \<open>The float64 format\<close>

text \<open>
  A column with a missing entry has dtype float64, and pandas computes on it in IEEE 754
  binary64 arithmetic: 53 significant bits, exponents from \<open>-1022\<close> to \<open>1023\<close>, results
  rounded to the nearest representable number, ties to the one with an even significand,
  and to an infinity when the rounded result reaches \<open>2 ^ 1024\<close>.

  \<open>ilog2 x\<close> is the exponent of the power of two at or below a positive \<open>x\<close>.
\<close>

definition ilog2 :: "rat \<Rightarrow> int" where
  "ilog2 x = (if 1 \<le> x then bitlen \<lfloor>x\<rfloor> - 1 else - bitlen (\<lceil>1 / x\<rceil> - 1))"

definition round_half_even :: "rat \<Rightarrow> int" where
  "round_half_even q =
     (let f = \<lfloor>q\<rfloor>; d = q - of_int f
      in if d < 1 / 2 then f else if 1 / 2 < d then f + 1 else if even f then f else f + 1)"

text \<open>\<open>2 ^ 1024\<close>, written out.\<close>

definition overflow_threshold :: rat where
  "overflow_threshold =
     179769313486231590772930519078902473361797697894230657273430081157732675805500963132708477322407536021120113879871393357658789768814416622492847430639474124377767893424865485276302219601246094119453082952085005768838150682342462881473913110540827237163350510684586298239947245938479716304835356329624224137216"

definition round64 :: "rat \<Rightarrow> cell" where
  "round64 x =
     (if x = 0 then Number 0
      else let e = max (ilog2 \<bar>x\<bar>) (- 1022);
               ulp = 2 powi (e - 52);
               r = of_int (round_half_even (\<bar>x\<bar> / ulp)) * ulp
           in if overflow_threshold \<le> r then (if 0 < x then PosInf else NegInf)
              else Number (sgn x * r))"

definition is_float64 :: "rat \<Rightarrow> bool" where
  "is_float64 x = (round64 x = Number x)"

text \<open>Addition and halving of float64 values.\<close>

fun float_add :: "cell \<Rightarrow> cell \<Rightarrow> cell" where
  "float_add (Number a) (Number b) = round64 (a + b)"
| "float_add PosInf NegInf = NaN"
| "float_add NegInf PosInf = NaN"
| "float_add PosInf (Number b) = PosInf"
| "float_add (Number a) PosInf = PosInf"
| "float_add PosInf PosInf = PosInf"
| "float_add NegInf (Number b) = NegInf"
| "float_add (Number a) NegInf = NegInf"
| "float_add NegInf NegInf = NegInf"
| "float_add x y = NaN"

fun float_half :: "cell \<Rightarrow> cell" where
  "float_half (Number a) = round64 (a / 2)"
| "float_half PosInf = PosInf"
| "float_half NegInf = NegInf"
| "float_half x = NaN"

subsection \<open>Well-formed tables\<close>

text \<open>
  What a column of a given dtype holds after \<^verbatim>\<open>read_csv\<close>, and the tables it returns:
  unique labels, and in every row one cell of the column's dtype per column. Called as
  the script calls it, \<^verbatim>\<open>read_csv\<close> makes no float32 and no int32 column.
\<close>

fun conforms :: "dtype \<Rightarrow> cell \<Rightarrow> bool" where
  "conforms Float64 x =
     (case x of NaN \<Rightarrow> True | Number q \<Rightarrow> is_float64 q | PosInf \<Rightarrow> True | NegInf \<Rightarrow> True
      | _ \<Rightarrow> False)"
| "conforms Float32 x = False"
| "conforms Int64 x = (case x of Number q \<Rightarrow> of_int \<lfloor>q\<rfloor> = q | _ \<Rightarrow> False)"
| "conforms Int32 x = False"
| "conforms Bool_dtype x = (case x of Boolean b \<Rightarrow> True | _ \<Rightarrow> False)"
| "conforms Object x = (case x of NaN \<Rightarrow> True | Text s \<Rightarrow> True | Boolean b \<Rightarrow> True | _ \<Rightarrow> False)"

definition wf_frame :: "frame \<Rightarrow> bool" where
  "wf_frame df =
     (distinct (map fst (columns df)) \<and>
      list_all (\<lambda>r. list_all2 (\<lambda>c x. conforms (snd c) x) (columns df) r) (rows df))"

definition rectangular :: "frame \<Rightarrow> bool" where
  "rectangular df = list_all (\<lambda>r. length r = length (columns df)) (rows df)"

subsection \<open>The pandas operations the scripts call\<close>

text \<open>\<^verbatim>\<open>df[col]\<close> and \<^verbatim>\<open>df[col] = values\<close>, by column position.\<close>

definition get_col :: "nat \<Rightarrow> frame \<Rightarrow> cell list" where
  "get_col j df = map (\<lambda>r. r ! j) (rows df)"

definition set_col :: "nat \<Rightarrow> cell list \<Rightarrow> frame \<Rightarrow> frame" where
  "set_col j vs df = df\<lparr>rows := map (\<lambda>(r, v). r[j := v]) (zip (rows df) vs)\<rparr>"

text \<open>\<^verbatim>\<open>series.isnull().sum()\<close>: the number of missing entries of a column.\<close>

definition isnull_count :: "cell list \<Rightarrow> nat" where
  "isnull_count cs = length (filter (\<lambda>x. x = NaN) cs)"

text \<open>\<^verbatim>\<open>df.isnull().sum().sum()\<close>: the number of missing cells of the whole table.\<close>

definition isnull_sum :: "frame \<Rightarrow> nat" where
  "isnull_sum df = sum_list (map isnull_count (rows df))"

text \<open>\<^verbatim>\<open>series.fillna(v)\<close> and \<^verbatim>\<open>df.fillna(v)\<close>.\<close>

definition fillna :: "cell \<Rightarrow> cell list \<Rightarrow> cell list" where
  "fillna v cs = map (\<lambda>x. if x = NaN then v else x) cs"

definition fillna_frame :: "cell \<Rightarrow> frame \<Rightarrow> frame" where
  "fillna_frame v df = df\<lparr>rows := map (fillna v) (rows df)\<rparr>"

text \<open>
  \<^verbatim>\<open>series.median()\<close> skips the missing entries, orders the remaining values and
  returns the middle one, or the float64 mean of the two middle ones: their sum, rounded,
  then halved, rounded. It is NaN when nothing remains. In a float64 column every cell is
  missing, a finite number or an infinity.
\<close>

fun finite_values :: "cell list \<Rightarrow> rat list" where
  "finite_values [] = []"
| "finite_values (Number q # cs) = q # finite_values cs"
| "finite_values (x # cs) = finite_values cs"

definition sorted_values :: "cell list \<Rightarrow> cell list" where
  "sorted_values cs =
     replicate (count_list cs NegInf) NegInf @ map Number (sort (finite_values cs))
       @ replicate (count_list cs PosInf) PosInf"

definition median :: "cell list \<Rightarrow> cell" where
  "median cs =
     (let s = sorted_values cs; n = length s
      in if n = 0 then NaN
         else if odd n then s ! (n div 2)
         else float_half (float_add (s ! (n div 2 - 1)) (s ! (n div 2))))"

text \<open>
  \<^verbatim>\<open>df.duplicated()\<close> marks a row that is equal, in every column, to a row seen before it
  (two missing cells count as equal); \<^verbatim>\<open>df.drop_duplicates()\<close> keeps the unmarked rows.
\<close>

fun duplicated :: "'a list \<Rightarrow> 'a list \<Rightarrow> bool list" where
  "duplicated seen [] = []"
| "duplicated seen (r # rs) = (r \<in> set seen) # duplicated (r # seen) rs"

definition keep_unmarked :: "'a list \<Rightarrow> bool list \<Rightarrow> 'a list" where
  "keep_unmarked rs marks = map fst (filter (\<lambda>(r, d). \<not> d) (zip rs marks))"

definition drop_duplicates :: "frame \<Rightarrow> frame" where
  "drop_duplicates df = df\<lparr>rows := keep_unmarked (rows df) (duplicated [] (rows df))\<rparr>"

section \<open>preprocess.py\<close>

text \<open>\<^verbatim>\<open>df.select_dtypes(include=['float64', 'int64', 'float32', 'int32']).columns\<close>\<close>

definition numeric_cols :: "frame \<Rightarrow> nat list" where
  "numeric_cols df =
     filter (\<lambda>j. snd (columns df ! j) \<in> {Float64, Int64, Float32, Int32})
       [0..<length (columns df)]"

text \<open>The body of the loop over the numeric columns.\<close>

definition impute_col :: "frame \<Rightarrow> nat \<Rightarrow> frame" where
  "impute_col df col =
     (if isnull_count (get_col col df) > 0 then
        (let median_val = median (get_col col df);
             fill_value = (if median_val \<noteq> NaN then median_val else Number 0)
         in set_col col (fillna fill_value (get_col col df)) df)
      else df)"

definition impute :: "frame \<Rightarrow> frame" where
  "impute df = foldl impute_col df (numeric_cols df)"

text \<open>
  \<^verbatim>\<open>preprocess_data\<close>, from the table read to the table written: imputation, removal of
  duplicates, and the fill with 0 when a missing value remains.
\<close>

definition preprocess_data :: "frame \<Rightarrow> frame" where
  "preprocess_data df0 =
     (let df = impute df0;
          df = drop_duplicates df;
          remaining_nan = isnull_sum df
      in if remaining_nan > 0 then fillna_frame (Number 0) df else df)"

section \<open>train.py\<close>

text \<open>
  \<^verbatim>\<open>StandardScaler\<close> and \<^verbatim>\<open>KMeans\<close> are scikit-learn estimators, not code of the
  scripts. \<^verbatim>\<open>train_model\<close> takes them as parameters: \<open>fit_transform\<close> returns the
  fitted scaler and the scaled table, \<open>kmeans_fit\<close> receives \<^verbatim>\<open>n_clusters\<close>,
  \<^verbatim>\<open>random_state\<close>, \<^verbatim>\<open>n_init\<close> and the scaled table and returns the fitted
  estimator, and \<open>kmeans_inertia\<close> reads its \<^verbatim>\<open>inertia_\<close>. Either call may raise.
\<close>

record ('e, 's, 'x, 'k) sklearn =
  fit_transform :: "frame \<Rightarrow> 'e + 's \<times> 'x"
  kmeans_fit :: "int \<Rightarrow> nat \<Rightarrow> nat \<Rightarrow> 'x \<Rightarrow> 'e + 'k"
  kmeans_inertia :: "'k \<Rightarrow> real"

text \<open>
  The script's own \<^verbatim>\<open>ValueError("Preprocessing failed: NaN values detected. ...")\<close>,
  and the errors raised inside the library.
\<close>

datatype 'e error = NaN_values_detected | Library 'e

text \<open>The dictionary written to the metrics file.\<close>

record metrics =
  n_clusters :: int
  inertia :: real
  n_samples :: nat
  n_features :: nat

text \<open>\<^verbatim>\<open>df.drop(label, axis=1)\<close>\<close>

definition drop_column :: "string \<Rightarrow> frame \<Rightarrow> frame" where
  "drop_column label df =
     \<lparr>columns = filter (\<lambda>c. fst c \<noteq> label) (columns df),
      rows = map (\<lambda>r. map snd (filter (\<lambda>(c, x). fst c \<noteq> label) (zip (columns df) r)))
               (rows df)\<rparr>"

text \<open>\<^verbatim>\<open>if 'CUST_ID' in df.columns: df = df.drop('CUST_ID', axis=1)\<close>\<close>

definition drop_cust_id :: "frame \<Rightarrow> frame" where
  "drop_cust_id df =
     (if ''CUST_ID'' \<in> set (map fst (columns df)) then drop_column ''CUST_ID'' df else df)"

text \<open>
  The part of \<^verbatim>\<open>train_model\<close> after the check for missing values: standardization,
  clustering with \<^verbatim>\<open>random_state=42\<close> and \<^verbatim>\<open>n_init=10\<close>, and the metrics. The result
  is the pickled pair of estimators and the metrics dictionary.
\<close>

definition fit_and_report ::
  "('e, 's, 'x, 'k) sklearn \<Rightarrow> frame \<Rightarrow> int \<Rightarrow> 'e error + ('k \<times> 's) \<times> metrics" where
  "fit_and_report lib df k =
     (case fit_transform lib df of
        Inl e \<Rightarrow> Inl (Library e)
      | Inr (scaler, X_scaled) \<Rightarrow>
          (case kmeans_fit lib k 42 10 X_scaled of
             Inl e \<Rightarrow> Inl (Library e)
           | Inr kmeans \<Rightarrow>
               Inr ((kmeans, scaler),
                    \<lparr>n_clusters = k,
                     inertia = kmeans_inertia lib kmeans,
                     n_samples = length (rows df),
                     n_features = length (columns df)\<rparr>)))"

text \<open>
  \<^verbatim>\<open>train_model\<close>, from the table read to the artifacts written; \<open>k\<close> is its
  \<^verbatim>\<open>n_clusters\<close> argument.
\<close>

definition train_model ::
  "('e, 's, 'x, 'k) sklearn \<Rightarrow> frame \<Rightarrow> int \<Rightarrow> 'e error + ('k \<times> 's) \<times> metrics" where
  "train_model lib df0 k =
     (let df = drop_cust_id df0
      in if isnull_sum df > 0 then Inl NaN_values_detected
         else fit_and_report lib df k)"

section \<open>The median of the specification\<close>

text \<open>
  The specification's median is the middle value of the sorted non-missing sample, and for
  an even number of values the mean of the two middle ones (200 for the balances 100, 300,
  300, 100), as a number and not as a float64 result. \<open>exact_median\<close> follows these words
  for a column of finite numbers; it is NaN where the specification calls the median
  undefined.
\<close>

definition exact_median :: "cell list \<Rightarrow> cell" where
  "exact_median cs =
     (let s = sort (finite_values cs); n = length s
      in if n = 0 then NaN
         else if odd n then Number (s ! (n div 2))
         else Number ((s ! (n div 2 - 1) + s ! (n div 2)) / 2))"

text \<open>
  No float64 operation of \<open>median\<close> rounds: the number of values is odd, or the sum of
  the two middle values and its half are float64 numbers.
\<close>

definition no_rounding :: "cell list \<Rightarrow> bool" where
  "no_rounding cs =
     (let s = sort (finite_values cs); n = length s
      in odd n \<or> (is_float64 (s ! (n div 2 - 1) + s ! (n div 2))
                 \<and> is_float64 ((s ! (n div 2 - 1) + s ! (n div 2)) / 2)))"

section \<open>Sample tables\<close>

text \<open>
  The six balances of the end-to-end scenario, with a customer identifier column of which
  one entry is missing.
\<close>

definition balance_example :: frame where
  "balance_example =
     \<lparr>columns = [(''CUST_ID'', Object), (''BALANCE'', Float64)],
      rows = [[Text ''C1'', Number 100], [NaN, NaN], [Text ''C3'', Number 300],
              [Text ''C3'', Number 300], [Text ''C5'', NaN], [Text ''C6'', Number 100]]\<rparr>"

text \<open>A column with no value at all.\<close>

definition all_missing_example :: frame where
  "all_missing_example = \<lparr>columns = [(''PAYMENTS'', Float64)], rows = [[NaN], [NaN]]\<rparr>"

text \<open>Two balances whose sum is not a float64 number: 1 and \<open>2 ^ 53\<close>.\<close>

definition rounding_example :: frame where
  "rounding_example =
     \<lparr>columns = [(''BALANCE'', Float64)],
      rows = [[Number 1], [NaN], [Number 9007199254740992]]\<rparr>"

text \<open>A column that holds both infinities.\<close>

definition infinite_example :: frame where
  "infinite_example =
     \<lparr>columns = [(''BALANCE'', Float64)], rows = [[PosInf], [NegInf], [NaN]]\<rparr>"

text \<open>A table whose only missing value is a customer identifier.\<close>

definition missing_id_example :: frame where
  "missing_id_example =
     \<lparr>columns = [(''CUST_ID'', Object), (''BALANCE'', Float64)],
      rows = [[NaN, Number 100], [Text ''C2'', Number 200], [Text ''C3'', Number 300]]\<rparr>"

text \<open>Estimators that never raise: the scaled table is the table, the inertia is 0.\<close>

definition sklearn_ok :: "(unit, unit, frame, unit) sklearn" where
  "sklearn_ok =
     \<lparr>fit_transform = (\<lambda>df. Inr ((), df)),
      kmeans_fit = (\<lambda>k random_state n_init X. Inr ()),
      kmeans_inertia = (\<lambda>kmeans. 0)\<rparr>"

section \<open>Auxiliary notions for the proofs\<close>

text \<open>What the loop body makes of one column.\<close>

definition imputed :: "cell list \<Rightarrow> cell list" where
  "imputed cs =
     map (\<lambda>x. if x = NaN then (if median cs \<noteq> NaN then median cs else Number 0) else x) cs"

text \<open>The values of the float64 format.\<close>

fun is_float_value :: "cell \<Rightarrow> bool" where
  "is_float_value (Number q) = True"
| "is_float_value PosInf = True"
| "is_float_value NegInf = True"
| "is_float_value x = False"

section \<open>Deduplication\<close>

lemma keep_unmarked_Cons:
  "keep_unmarked (r # rs) (d # ds) = (if d then keep_unmarked rs ds else r # keep_unmarked rs ds)"
  by (simp add: keep_unmarked_def)

lemma keep_unmarked_Nil: "keep_unmarked [] ds = []"
  by (simp add: keep_unmarked_def)

lemma upt_filter_shift:
  "filter P [0..<Suc n] = (if P 0 then [0] else []) @ map Suc (filter (\<lambda>i. P (Suc i)) [0..<n])"
proof -
  have "[0..<Suc n] = 0 # map Suc [0..<n]"
    by (simp add: upt_conv_Cons map_Suc_upt del: upt_Suc)
  then show ?thesis
    by (simp add: filter_map comp_def del: upt_Suc)
qed

lemma keep_unmarked_indices:
  "keep_unmarked rs (duplicated seen rs) =
     map (\<lambda>i. rs ! i) (filter (\<lambda>i. rs ! i \<notin> set seen \<union> set (take i rs)) [0..<length rs])"
proof (induction rs arbitrary: seen)
  case Nil
  show ?case by (simp add: keep_unmarked_Nil)
next
  case (Cons r rs)
  have step: "keep_unmarked (r # rs) (duplicated seen (r # rs)) =
          (if r \<in> set seen then [] else [r]) @ keep_unmarked rs (duplicated (r # seen) rs)"
    by (simp add: keep_unmarked_Cons)
  have ih: "keep_unmarked rs (duplicated (r # seen) rs) =
          map (\<lambda>i. rs ! i)
            (filter (\<lambda>i. rs ! i \<notin> set (r # seen) \<union> set (take i rs)) [0..<length rs])"
    by (rule Cons.IH)
  have same: "(\<lambda>i. (r # rs) ! Suc i \<notin> set seen \<union> set (take (Suc i) (r # rs))) =
          (\<lambda>i. rs ! i \<notin> set (r # seen) \<union> set (take i rs))"
    by auto
  have "map (\<lambda>i. (r # rs) ! i)
          (filter (\<lambda>i. (r # rs) ! i \<notin> set seen \<union> set (take i (r # rs))) [0..<length (r # rs)]) =
        (if r \<in> set seen then [] else [r]) @
        map (\<lambda>i. rs ! i)
          (filter (\<lambda>i. rs ! i \<notin> set (r # seen) \<union> set (take i rs)) [0..<length rs])"
    unfolding length_Cons upt_filter_shift same [symmetric]
    by (simp add: comp_def del: upt_Suc)
  with step ih show ?case by simp
qed

lemma keep_unmarked_fresh:
  "set (keep_unmarked rs (duplicated seen rs)) \<inter> set seen = {}"
proof (induction rs arbitrary: seen)
  case Nil
  show ?case by (simp add: keep_unmarked_Nil)
next
  case (Cons r rs)
  have "set (keep_unmarked rs (duplicated (r # seen) rs)) \<inter> set (r # seen) = {}"
    by (rule Cons.IH)
  then show ?case by (auto simp: keep_unmarked_Cons)
qed

lemma keep_unmarked_subset:
  "set (keep_unmarked rs (duplicated seen rs)) \<subseteq> set rs"
  by (induction rs arbitrary: seen) (auto simp: keep_unmarked_Cons keep_unmarked_Nil)

lemma keep_unmarked_distinct:
  "distinct (keep_unmarked rs (duplicated seen rs))"
proof (induction rs arbitrary: seen)
  case Nil
  show ?case by (simp add: keep_unmarked_Nil)
next
  case (Cons r rs)
  have "r \<notin> set (keep_unmarked rs (duplicated (r # seen) rs))"
    using keep_unmarked_fresh [of rs "r # seen"] by auto
  with Cons.IH [of "r # seen"] show ?case
    by (simp add: keep_unmarked_Cons)
qed

lemma keep_unmarked_id:
  "distinct rs \<Longrightarrow> set rs \<inter> set seen = {} \<Longrightarrow> keep_unmarked rs (duplicated seen rs) = rs"
  by (induction rs arbitrary: seen) (auto simp: keep_unmarked_Cons keep_unmarked_Nil)

text \<open>
  C4. The Deduplicator removes exactly the rows that are equal, in every column, to an
  earlier row: what remains is the rows at the positions whose row does not occur at an
  earlier position, in their original order, and the columns stay as they were.
\<close>

theorem drop_duplicates_keeps_first:
  "rows (drop_duplicates df) =
     map (\<lambda>i. rows df ! i)
       (filter (\<lambda>i. rows df ! i \<notin> set (take i (rows df))) [0..<length (rows df)])
   \<and> columns (drop_duplicates df) = columns df"
  using keep_unmarked_indices [of "rows df" "[]"] by (simp add: drop_duplicates_def)

text \<open>
  C9. Deduplication is idempotent: a second pass of the Deduplicator over its own output
  removes no row.
\<close>

theorem drop_duplicates_idempotent:
  "drop_duplicates (drop_duplicates df) = drop_duplicates df"
  using keep_unmarked_id [OF keep_unmarked_distinct [of "rows df" "[]"], of "[]"]
  by (simp add: drop_duplicates_def)

section \<open>Imputation\<close>

lemma isnull_count_pos: "0 < isnull_count cs \<longleftrightarrow> NaN \<in> set cs"
  by (simp add: isnull_count_def filter_empty_conv)

lemma imputed_id: "NaN \<notin> set cs \<Longrightarrow> imputed cs = cs"
  unfolding imputed_def by (rule map_idI) auto

lemma length_imputed: "length (imputed cs) = length cs"
  by (simp add: imputed_def)

lemma length_get_col: "length (get_col j df) = length (rows df)"
  by (simp add: get_col_def)

lemma columns_set_col: "columns (set_col j vs df) = columns df"
  by (simp add: set_col_def)

lemma length_rows_set_col:
  "length vs = length (rows df) \<Longrightarrow> length (rows (set_col j vs df)) = length (rows df)"
  by (simp add: set_col_def)

lemma rectangular_nth:
  "rectangular df \<Longrightarrow> i < length (rows df) \<Longrightarrow> length (rows df ! i) = length (columns df)"
  by (simp add: rectangular_def list_all_length)

lemma rectangular_set_col:
  assumes "rectangular df"
  shows "rectangular (set_col j vs df)"
proof -
  have "\<forall>p \<in> set (zip (rows df) vs). length (fst p) = length (columns df)"
    using assms by (auto simp: rectangular_def list_all_iff dest: set_zip_leftD)
  then show ?thesis
    by (auto simp: rectangular_def set_col_def list_all_iff)
qed

lemma get_col_set_col_same:
  assumes "rectangular df" "j < length (columns df)" "length vs = length (rows df)"
  shows "get_col j (set_col j vs df) = vs"
proof (rule nth_equalityI)
  show "length (get_col j (set_col j vs df)) = length vs"
    using assms(3) by (simp add: get_col_def set_col_def)
next
  fix i assume "i < length (get_col j (set_col j vs df))"
  then have i: "i < length (rows df)"
    using assms(3) by (simp add: get_col_def set_col_def)
  then have "j < length (rows df ! i)"
    using assms(1,2) by (simp add: rectangular_nth)
  then show "get_col j (set_col j vs df) ! i = vs ! i"
    using i assms(3) by (simp add: get_col_def set_col_def)
qed

lemma get_col_set_col_other:
  assumes "k \<noteq> j" "length vs = length (rows df)"
  shows "get_col k (set_col j vs df) = get_col k df"
proof (rule nth_equalityI)
  show "length (get_col k (set_col j vs df)) = length (get_col k df)"
    using assms(2) by (simp add: get_col_def set_col_def)
next
  fix i assume "i < length (get_col k (set_col j vs df))"
  then have i: "i < length (rows df)"
    using assms(2) by (simp add: get_col_def set_col_def)
  then show "get_col k (set_col j vs df) ! i = get_col k df ! i"
    using assms by (simp add: get_col_def set_col_def)
qed

lemma columns_impute_col: "columns (impute_col df j) = columns df"
  by (simp add: impute_col_def Let_def columns_set_col)

lemma length_rows_impute_col: "length (rows (impute_col df j)) = length (rows df)"
  by (simp add: impute_col_def Let_def length_rows_set_col fillna_def length_get_col)

lemma rectangular_impute_col: "rectangular df \<Longrightarrow> rectangular (impute_col df j)"
  by (simp add: impute_col_def Let_def rectangular_set_col)

lemma get_col_impute_col_same:
  assumes "rectangular df" "j < length (columns df)"
  shows "get_col j (impute_col df j) = imputed (get_col j df)"
proof (cases "NaN \<in> set (get_col j df)")
  case True
  have "length (fillna v (get_col j df)) = length (rows df)" for v
    by (simp add: fillna_def length_get_col)
  with True assms show ?thesis
    by (simp add: impute_col_def Let_def isnull_count_pos get_col_set_col_same
        imputed_def fillna_def)
next
  case False
  then show ?thesis
    by (simp add: impute_col_def isnull_count_pos imputed_id)
qed

lemma get_col_impute_col_other:
  assumes "k \<noteq> j"
  shows "get_col k (impute_col df j) = get_col k df"
proof -
  have "length (fillna v (get_col j df)) = length (rows df)" for v
    by (simp add: fillna_def length_get_col)
  with assms show ?thesis
    by (simp add: impute_col_def Let_def get_col_set_col_other)
qed

lemma columns_foldl_impute_col: "columns (foldl impute_col df js) = columns df"
  by (induction js arbitrary: df) (simp_all add: columns_impute_col)

lemma length_rows_foldl_impute_col: "length (rows (foldl impute_col df js)) = length (rows df)"
  by (induction js arbitrary: df) (simp_all add: length_rows_impute_col)

lemma get_col_foldl_impute_col:
  assumes "rectangular df" "distinct js" "\<forall>j \<in> set js. j < length (columns df)"
  shows "get_col k (foldl impute_col df js) =
           (if k \<in> set js then imputed (get_col k df) else get_col k df)"
  using assms
proof (induction js arbitrary: df)
  case Nil
  show ?case by simp
next
  case (Cons a js)
  let ?df = "impute_col df a"
  have ih: "get_col k (foldl impute_col ?df js) =
              (if k \<in> set js then imputed (get_col k ?df) else get_col k ?df)"
    using Cons.prems by (intro Cons.IH) (simp_all add: rectangular_impute_col columns_impute_col)
  show ?case
  proof (cases "k = a")
    case True
    with Cons.prems have "k \<notin> set js" by simp
    with ih True Cons.prems show ?thesis
      by (simp add: get_col_impute_col_same)
  next
    case False
    with ih show ?thesis
      by (simp add: get_col_impute_col_other)
  qed
qed

lemma distinct_numeric_cols: "distinct (numeric_cols df)"
  by (simp add: numeric_cols_def)

lemma numeric_cols_bound: "j \<in> set (numeric_cols df) \<Longrightarrow> j < length (columns df)"
  by (simp add: numeric_cols_def)

lemma wf_frame_rectangular: "wf_frame df \<Longrightarrow> rectangular df"
  by (auto simp: wf_frame_def rectangular_def list_all_iff dest!: list_all2_lengthD)

lemma get_col_impute:
  assumes "rectangular df"
  shows "get_col k (impute df) =
           (if k \<in> set (numeric_cols df) then imputed (get_col k df) else get_col k df)"
  unfolding impute_def
  using assms distinct_numeric_cols numeric_cols_bound
  by (intro get_col_foldl_impute_col) auto

lemma wf_frame_numeric_cell:
  assumes "wf_frame df" "j < length (columns df)"
    "snd (columns df ! j) \<in> {Float64, Int64, Float32, Int32}" "x \<in> set (get_col j df)"
  shows "x = NaN \<or> is_float_value x"
proof -
  from assms(4) obtain r where r: "r \<in> set (rows df)" "x = r ! j"
    by (auto simp: get_col_def)
  with assms(1) have "list_all2 (\<lambda>c x. conforms (snd c) x) (columns df) r"
    by (simp add: wf_frame_def list_all_iff)
  with assms(2) have "conforms (snd (columns df ! j)) (r ! j)"
    by (simp add: list_all2_conv_all_nth)
  with assms(3) r(2) show ?thesis
    by (cases "r ! j") auto
qed

subsection \<open>The float64 operations\<close>

text \<open>\<open>ilog2\<close> brackets a positive number between two consecutive powers of two.\<close>

lemma bitlen_pos: "0 < m \<Longrightarrow> 1 \<le> bitlen m"
  using bitlen_eq_zero_iff [of m] bitlen_nonneg [of m] by linarith

lemma ilog2_bounds:
  assumes "0 < x"
  shows "2 powi ilog2 x \<le> x \<and> x < 2 powi (ilog2 x + 1)"
proof (cases "1 \<le> x")
  case True
  define m where "m = \<lfloor>x\<rfloor>"
  have m: "0 < m" using True by (simp add: m_def)
  have k: "1 \<le> bitlen m" using m by (rule bitlen_pos)
  have e: "ilog2 x = bitlen m - 1" using True by (simp add: ilog2_def m_def)
  from bitlen_bounds [OF m]
  have lo: "2 ^ nat (bitlen m - 1) \<le> m" and hi: "m + 1 \<le> 2 ^ nat (bitlen m)"
    by simp_all
  have "(2::rat) ^ nat (bitlen m - 1) = of_int (2 ^ nat (bitlen m - 1))" by simp
  also have "\<dots> \<le> of_int m" using lo by (simp only: of_int_le_iff)
  also have "\<dots> \<le> x" by (simp add: m_def)
  finally have 1: "(2::rat) ^ nat (bitlen m - 1) \<le> x" .
  have "x < of_int (m + 1)" unfolding m_def by linarith
  also have "\<dots> \<le> of_int (2 ^ nat (bitlen m))" using hi by (simp only: of_int_le_iff)
  also have "\<dots> = (2::rat) ^ nat (bitlen m)" by simp
  finally have 2: "x < (2::rat) ^ nat (bitlen m)" .
  from 1 2 k show ?thesis
    by (simp add: e power_int_def)
next
  case False
  define c where "c = \<lceil>1 / x\<rceil>"
  define m where "m = c - 1"
  from False assms have y: "1 < 1 / x" by simp
  then have c: "2 \<le> c" unfolding c_def by (simp add: le_ceiling_iff)
  then have m: "0 < m" by (simp add: m_def)
  have k: "1 \<le> bitlen m" using m by (rule bitlen_pos)
  have e: "ilog2 x = - bitlen m" using False by (simp add: ilog2_def m_def c_def)
  from bitlen_bounds [OF m]
  have lo: "2 ^ nat (bitlen m - 1) \<le> m" and hi: "c \<le> 2 ^ nat (bitlen m)"
    by (simp_all add: m_def)
  have "1 / x \<le> of_int c" by (simp add: c_def)
  also have "\<dots> \<le> of_int (2 ^ nat (bitlen m))" using hi by (simp only: of_int_le_iff)
  also have "\<dots> = (2::rat) ^ nat (bitlen m)" by simp
  finally have "1 / x \<le> (2::rat) ^ nat (bitlen m)" .
  then have 1: "1 / (2::rat) ^ nat (bitlen m) \<le> x"
    using assms by (simp add: field_simps)
  have "(2::rat) ^ nat (bitlen m - 1) = of_int (2 ^ nat (bitlen m - 1))" by simp
  also have "\<dots> \<le> of_int m" using lo by (simp only: of_int_le_iff)
  also have "\<dots> < 1 / x" unfolding m_def c_def by linarith
  finally have "(2::rat) ^ nat (bitlen m - 1) < 1 / x" .
  then have 2: "x < 1 / (2::rat) ^ nat (bitlen m - 1)"
    using assms by (simp add: field_simps)
  have p1: "(2::rat) powi (- bitlen m) = 1 / 2 ^ nat (bitlen m)"
    using k by (simp add: power_int_def field_simps)
  have p2: "(2::rat) powi (- bitlen m + 1) = 1 / 2 ^ nat (bitlen m - 1)"
  proof (cases "bitlen m = 1")
    case True then show ?thesis by simp
  next
    case False
    with k have "- bitlen m + 1 < 0" by simp
    moreover have "nat (- (- bitlen m + 1)) = nat (bitlen m - 1)" by simp
    ultimately show ?thesis by (simp add: power_int_def field_simps)
  qed
  from 1 2 show ?thesis
    by (simp only: e p1 p2)
qed

lemma overflow_threshold_eq: "overflow_threshold = 2 ^ 1024"
  by (simp add: overflow_threshold_def)

text \<open>
  Rounding at work: one tenth is not a float64 number, and an integer halfway between two
  float64 numbers goes to the one with the even significand.
\<close>

lemma round64_samples:
  "round64 (1 / 10) = Number (3602879701896397 / 36028797018963968)"
  "round64 9007199254740993 = Number 9007199254740992"
  "round64 9007199254740995 = Number 9007199254740996"
  by code_simp+

lemma round64_value: "is_float_value (round64 x)"
  by (simp add: round64_def Let_def)

lemma float_add_NaN_iff:
  assumes "is_float_value a" "is_float_value b"
  shows "float_add a b = NaN \<longleftrightarrow> (a = PosInf \<and> b = NegInf) \<or> (a = NegInf \<and> b = PosInf)"
proof -
  have "round64 x \<noteq> NaN" for x
    using round64_value [of x] by (cases "round64 x") simp_all
  with assms show ?thesis
    by (cases a; cases b) simp_all
qed

lemma float_add_value:
  "float_add a b \<noteq> NaN \<Longrightarrow> is_float_value (float_add a b)"
  by (cases a; cases b) (simp_all add: round64_value)

lemma float_half_value: "is_float_value v \<Longrightarrow> float_half v \<noteq> NaN"
proof -
  have "round64 x \<noteq> NaN" for x
    using round64_value [of x] by (cases "round64 x") simp_all
  then show "is_float_value v \<Longrightarrow> float_half v \<noteq> NaN"
    by (cases v) simp_all
qed

subsection \<open>The median\<close>

lemma finite_values_empty_iff:
  "finite_values cs = [] \<longleftrightarrow> (\<forall>x \<in> set cs. \<forall>q. x \<noteq> Number q)"
  by (induction cs rule: finite_values.induct) auto

lemma sort_Nil_iff: "sort xs = [] \<longleftrightarrow> xs = []"
  using length_sort [of "\<lambda>x. x" xs] by (metis length_0_conv)

lemma sorted_values_Nil_iff:
  "sorted_values cs = [] \<longleftrightarrow> (\<forall>x \<in> set cs. \<not> is_float_value x)"
proof -
  have "(\<forall>x \<in> set cs. \<not> is_float_value x) \<longleftrightarrow>
          NegInf \<notin> set cs \<and> PosInf \<notin> set cs \<and> (\<forall>x \<in> set cs. \<forall>q. x \<noteq> Number q)"
  proof
    assume *: "\<forall>x \<in> set cs. \<not> is_float_value x"
    show "NegInf \<notin> set cs \<and> PosInf \<notin> set cs \<and> (\<forall>x \<in> set cs. \<forall>q. x \<noteq> Number q)"
      using * by fastforce
  next
    assume *: "NegInf \<notin> set cs \<and> PosInf \<notin> set cs \<and> (\<forall>x \<in> set cs. \<forall>q. x \<noteq> Number q)"
    show "\<forall>x \<in> set cs. \<not> is_float_value x"
    proof
      fix x assume "x \<in> set cs"
      with * show "\<not> is_float_value x" by (cases x) auto
    qed
  qed
  then show ?thesis
    by (auto simp: sorted_values_def sort_Nil_iff finite_values_empty_iff count_list_0_iff)
qed

lemma sorted_values_member:
  assumes "x \<in> set (sorted_values cs)"
  shows "is_float_value x \<and> (x = NegInf \<longrightarrow> NegInf \<in> set cs) \<and> (x = PosInf \<longrightarrow> PosInf \<in> set cs)"
proof -
  have "0 < count_list cs v \<Longrightarrow> v \<in> set cs" for v
    using count_list_0_iff [of cs v] by auto
  with assms show ?thesis
    by (auto simp: sorted_values_def)
qed

lemma median_all_missing: "\<forall>x \<in> set cs. x = NaN \<Longrightarrow> median cs = NaN"
proof -
  assume "\<forall>x \<in> set cs. x = NaN"
  then have "\<forall>x \<in> set cs. \<not> is_float_value x" by auto
  then have "sorted_values cs = []" by (simp only: sorted_values_Nil_iff)
  then show ?thesis by (simp add: median_def)
qed

lemma median_not_NaN:
  assumes "sorted_values cs \<noteq> []" and "PosInf \<notin> set cs \<or> NegInf \<notin> set cs"
  shows "median cs \<noteq> NaN"
proof -
  define s where "s = sorted_values cs"
  define n where "n = length s"
  have pos: "0 < n" using assms(1) by (simp add: n_def s_def)
  have mem: "is_float_value (s ! i) \<and> (s ! i = NegInf \<longrightarrow> NegInf \<in> set cs)
               \<and> (s ! i = PosInf \<longrightarrow> PosInf \<in> set cs)" if "i < n" for i
    using that sorted_values_member [of "s ! i" cs] by (simp add: n_def s_def)
  have med: "median cs =
      (if n = 0 then NaN else if odd n then s ! (n div 2)
       else float_half (float_add (s ! (n div 2 - 1)) (s ! (n div 2))))"
    by (simp only: median_def Let_def s_def n_def)
  show ?thesis
  proof (cases "odd n")
    case True
    have "n div 2 < n" using pos by arith
    then have "is_float_value (s ! (n div 2))" using mem by blast
    then have "s ! (n div 2) \<noteq> NaN" by auto
    with True pos med show ?thesis by simp
  next
    case False
    have "n div 2 - 1 < n" "n div 2 < n" using pos by arith+
    then have a: "is_float_value (s ! (n div 2 - 1))"
        "s ! (n div 2 - 1) = NegInf \<longrightarrow> NegInf \<in> set cs"
        "s ! (n div 2 - 1) = PosInf \<longrightarrow> PosInf \<in> set cs"
      and b: "is_float_value (s ! (n div 2))"
        "s ! (n div 2) = NegInf \<longrightarrow> NegInf \<in> set cs"
        "s ! (n div 2) = PosInf \<longrightarrow> PosInf \<in> set cs"
      using mem by blast+
    have "float_add (s ! (n div 2 - 1)) (s ! (n div 2)) \<noteq> NaN"
      using float_add_NaN_iff [OF a(1) b(1)] a(2,3) b(2,3) assms(2) by blast
    then have "float_half (float_add (s ! (n div 2 - 1)) (s ! (n div 2))) \<noteq> NaN"
      by (intro float_half_value float_add_value)
    with False pos med show ?thesis by simp
  qed
qed

lemma sorted_values_finite:
  "PosInf \<notin> set cs \<Longrightarrow> NegInf \<notin> set cs \<Longrightarrow>
   sorted_values cs = map Number (sort (finite_values cs))"
  by (simp add: sorted_values_def count_list_0_iff)

lemma median_exact:
  assumes "PosInf \<notin> set cs" "NegInf \<notin> set cs" "no_rounding cs"
  shows "median cs = exact_median cs"
proof -
  define s where "s = sort (finite_values cs)"
  define n where "n = length s"
  have sv: "sorted_values cs = map Number s"
    using assms(1,2) by (simp add: sorted_values_finite s_def)
  have med: "median cs =
      (if n = 0 then NaN else if odd n then map Number s ! (n div 2)
       else float_half (float_add (map Number s ! (n div 2 - 1)) (map Number s ! (n div 2))))"
    by (simp add: median_def Let_def sv n_def)
  have ex: "exact_median cs =
      (if n = 0 then NaN else if odd n then Number (s ! (n div 2))
       else Number ((s ! (n div 2 - 1) + s ! (n div 2)) / 2))"
    by (simp only: exact_median_def Let_def s_def n_def)
  have nr: "odd n \<or> (is_float64 (s ! (n div 2 - 1) + s ! (n div 2))
                 \<and> is_float64 ((s ! (n div 2 - 1) + s ! (n div 2)) / 2))"
    using assms(3) by (simp only: no_rounding_def Let_def s_def n_def)
  show ?thesis
  proof (cases "n = 0")
    case True
    with med ex show ?thesis by simp
  next
    case False
    then have "n div 2 - 1 < n" "n div 2 < n"
      by arith+
    then have lt: "n div 2 - 1 < length s" "n div 2 < length s"
      by (simp_all only: n_def)
    show ?thesis
    proof (cases "odd n")
      case True
      with False med ex lt show ?thesis by simp
    next
      case even: False
      with nr have "round64 (s ! (n div 2 - 1) + s ! (n div 2)) =
                      Number (s ! (n div 2 - 1) + s ! (n div 2))"
        and "round64 ((s ! (n div 2 - 1) + s ! (n div 2)) / 2) =
               Number ((s ! (n div 2 - 1) + s ! (n div 2)) / 2)"
        by (simp_all add: is_float64_def)
      with even False med ex lt show ?thesis by simp
    qed
  qed
qed

text \<open>
  The median of the specification splits the sample: at least half of the numbers are at
  most it, and at least half are at least it.
\<close>

lemma count_take_drop:
  "length (filter P xs) = length (filter P (take k xs)) + length (filter P (drop k xs))"
proof -
  have "filter P xs = filter P (take k xs @ drop k xs)" by simp
  also have "length \<dots> = length (filter P (take k xs)) + length (filter P (drop k xs))"
    by (simp only: filter_append length_append)
  finally show ?thesis .
qed

lemma count_sort: "length (filter P (sort xs)) = length (filter P xs)"
  by (simp add: filter_sort)

lemma sorted_take_le:
  assumes "sorted s" "k \<le> length s" "\<forall>i < k. s ! i \<le> (m::rat)"
  shows "k \<le> length (filter (\<lambda>x. x \<le> m) s)"
proof -
  have "\<forall>x \<in> set (take k s). x \<le> m"
    using assms(2,3) by (auto simp: in_set_conv_nth)
  then have "filter (\<lambda>x. x \<le> m) (take k s) = take k s"
    by (simp add: filter_id_conv)
  then have "length (filter (\<lambda>x. x \<le> m) (take k s)) = k"
    using assms(2) by simp
  then show ?thesis
    using count_take_drop [of "\<lambda>x. x \<le> m" s k] by simp
qed

lemma sorted_drop_ge:
  assumes "sorted s" "k \<le> length s" "\<forall>i. k \<le> i \<and> i < length s \<longrightarrow> (m::rat) \<le> s ! i"
  shows "length s - k \<le> length (filter (\<lambda>x. m \<le> x) s)"
proof -
  have "\<forall>x \<in> set (drop k s). m \<le> x"
    using assms(2,3) by (auto simp: in_set_conv_nth)
  then have "filter (\<lambda>x. m \<le> x) (drop k s) = drop k s"
    by (simp add: filter_id_conv)
  then have "length (filter (\<lambda>x. m \<le> x) (drop k s)) = length s - k"
    by simp
  then show ?thesis
    using count_take_drop [of "\<lambda>x. m \<le> x" s k] by simp
qed

lemma exact_median_splits_sample:
  assumes "exact_median cs = Number m"
  shows "length (finite_values cs) \<le> 2 * length (filter (\<lambda>x. x \<le> m) (finite_values cs))
       \<and> length (finite_values cs) \<le> 2 * length (filter (\<lambda>x. m \<le> x) (finite_values cs))"
proof -
  define s where "s = sort (finite_values cs)"
  define n where "n = length s"
  have srt: "sorted s" by (simp add: s_def)
  have n: "n = length (finite_values cs)" by (simp add: n_def s_def)
  have med: "exact_median cs =
      (if n = 0 then NaN
       else if odd n then Number (s ! (n div 2))
       else Number ((s ! (n div 2 - 1) + s ! (n div 2)) / 2))"
    by (simp only: exact_median_def Let_def s_def n_def)
  have pos: "0 < n"
    using assms med by (cases "n = 0") simp_all
  have mono: "s ! i \<le> s ! j" if "i \<le> j" "j < n" for i j
    using srt that by (simp add: sorted_nth_mono n_def)
  have "n \<le> 2 * length (filter (\<lambda>x. x \<le> m) s) \<and> n \<le> 2 * length (filter (\<lambda>x. m \<le> x) s)"
  proof (cases "odd n")
    case True
    then have m: "m = s ! (n div 2)"
      using assms pos med by simp
    have "n div 2 + 1 \<le> n" "n div 2 \<le> n" "n div 2 < n"
      using pos by arith+
    then have k: "n div 2 + 1 \<le> length s" "n div 2 \<le> length s" "n div 2 < n"
      by (simp_all only: n_def)
    have "\<forall>i < n div 2 + 1. s ! i \<le> m"
      using k(3) by (auto simp: m intro!: mono)
    with srt k(1) have "n div 2 + 1 \<le> length (filter (\<lambda>x. x \<le> m) s)"
      by (rule sorted_take_le)
    moreover have "\<forall>i. n div 2 \<le> i \<and> i < length s \<longrightarrow> m \<le> s ! i"
      by (auto simp: m n_def [symmetric] intro!: mono)
    with srt k(2) have "length s - n div 2 \<le> length (filter (\<lambda>x. m \<le> x) s)"
      by (rule sorted_drop_ge)
    ultimately show ?thesis
      using True by (auto simp: n_def elim!: oddE)
  next
    case False
    then have m: "m = (s ! (n div 2 - 1) + s ! (n div 2)) / 2"
      using assms pos med by simp
    from False pos have half: "0 < n div 2" "n div 2 < n" "2 * (n div 2) = n"
      by (auto elim!: evenE)
    have ab: "s ! (n div 2 - 1) \<le> s ! (n div 2)"
      using half by (intro mono) auto
    have lo: "s ! (n div 2 - 1) \<le> m" and hi: "m \<le> s ! (n div 2)"
      using ab by (simp_all add: m field_simps)
    have "s ! i \<le> m" if "i < n div 2" for i
    proof -
      have "s ! i \<le> s ! (n div 2 - 1)" using that half by (intro mono) auto
      with lo show ?thesis by simp
    qed
    then have "n div 2 \<le> length (filter (\<lambda>x. x \<le> m) s)"
      using srt half by (intro sorted_take_le) (auto simp: n_def)
    moreover have "m \<le> s ! i" if "n div 2 \<le> i" "i < n" for i
    proof -
      have "s ! (n div 2) \<le> s ! i" using that by (intro mono) auto
      with hi show ?thesis by simp
    qed
    then have "length s - n div 2 \<le> length (filter (\<lambda>x. m \<le> x) s)"
      using srt half by (intro sorted_drop_ge) (auto simp: n_def)
    ultimately show ?thesis
      using half by (simp add: n_def)
  qed
  then show ?thesis
    by (simp add: n s_def count_sort)
qed

text \<open>
  C1. In a numeric column with at least one missing entry, the Imputer replaces every
  missing entry with the float64 median that \<^verbatim>\<open>Series.median\<close> returns for the column,
  or with 0 when that median is NaN, and leaves the other entries as they are. The median
  is NaN when every entry is missing; when an entry is present it is not NaN unless the
  column holds both infinities; and it is the median of the specification when the
  present values are finite and no float64 operation rounds.
\<close>

theorem imputer_fills_median:
  assumes "wf_frame df" and "j < length (columns df)"
    and "snd (columns df ! j) \<in> {Float64, Int64, Float32, Int32}"
    and "NaN \<in> set (get_col j df)"
  shows "get_col j (impute df) =
           map (\<lambda>x. if x = NaN
                    then (if median (get_col j df) = NaN then Number 0
                          else median (get_col j df))
                    else x)
             (get_col j df)
         \<and> (list_all (\<lambda>y. y = NaN) (get_col j df) \<longrightarrow> median (get_col j df) = NaN)
         \<and> (\<not> list_all (\<lambda>y. y = NaN) (get_col j df)
              \<and> (PosInf \<notin> set (get_col j df) \<or> NegInf \<notin> set (get_col j df)) \<longrightarrow>
              median (get_col j df) \<noteq> NaN)
         \<and> (PosInf \<notin> set (get_col j df) \<and> NegInf \<notin> set (get_col j df)
              \<and> no_rounding (get_col j df) \<longrightarrow>
              median (get_col j df) = exact_median (get_col j df))"
proof -
  let ?cs = "get_col j df"
  have num: "x = NaN \<or> is_float_value x" if "x \<in> set ?cs" for x
    using wf_frame_numeric_cell [OF assms(1-3) that] .
  have present: "sorted_values ?cs \<noteq> []" if "\<not> list_all (\<lambda>y. y = NaN) ?cs"
  proof -
    from that obtain x where "x \<in> set ?cs" "x \<noteq> NaN"
      by (auto simp: list_all_iff)
    with num have "x \<in> set ?cs" "is_float_value x" by auto
    then show ?thesis by (auto simp: sorted_values_Nil_iff)
  qed
  have "j \<in> set (numeric_cols df)"
    using assms(2,3) by (simp add: numeric_cols_def)
  then have "get_col j (impute df) = imputed ?cs"
    using assms(1) by (simp add: get_col_impute wf_frame_rectangular)
  then have 1: "get_col j (impute df) =
           map (\<lambda>x. if x = NaN
                    then (if median ?cs = NaN then Number 0 else median ?cs)
                    else x) ?cs"
    by (simp add: imputed_def)
  have 2: "list_all (\<lambda>y. y = NaN) ?cs \<longrightarrow> median ?cs = NaN"
    by (simp add: list_all_iff median_all_missing)
  have 3: "\<not> list_all (\<lambda>y. y = NaN) ?cs \<and> (PosInf \<notin> set ?cs \<or> NegInf \<notin> set ?cs) \<longrightarrow>
             median ?cs \<noteq> NaN"
    using present median_not_NaN by blast
  have 4: "PosInf \<notin> set ?cs \<and> NegInf \<notin> set ?cs \<and> no_rounding ?cs \<longrightarrow>
             median ?cs = exact_median ?cs"
    using median_exact by blast
  from 1 2 3 4 show ?thesis by (intro conjI)
qed

section \<open>The table written by preprocessing\<close>

lemma isnull_count_fillna: "v \<noteq> NaN \<Longrightarrow> isnull_count (fillna v cs) = 0"
  by (simp add: isnull_count_def fillna_def filter_empty_conv)

lemma isnull_sum_fillna_frame: "v \<noteq> NaN \<Longrightarrow> isnull_sum (fillna_frame v df) = 0"
  by (simp add: isnull_sum_def fillna_frame_def isnull_count_fillna comp_def)

text \<open>
  C2. Whatever the input table, the table written by \<^verbatim>\<open>preprocess_data\<close> has no missing
  value.
\<close>

theorem preprocess_data_no_missing: "isnull_sum (preprocess_data df) = 0"
  by (simp add: preprocess_data_def Let_def isnull_sum_fillna_frame)

lemma get_col_foldl_impute_col_other:
  "k \<notin> set js \<Longrightarrow> get_col k (foldl impute_col df js) = get_col k df"
  by (induction js arbitrary: df) (simp_all add: get_col_impute_col_other)

lemma columns_impute: "columns (impute df) = columns df"
  by (simp add: impute_def columns_foldl_impute_col)

text \<open>
  C10. When a missing value remains after imputation and deduplication, the table written
  is the deduplicated table with every missing cell, in whatever column, replaced by 0;
  the columns are those of the input. The Imputer leaves every column outside the selected
  numeric dtypes as it was, so a missing identifier reaches the fallback and becomes 0.
\<close>

theorem fallback_fills_every_column:
  assumes "0 < isnull_sum (drop_duplicates (impute df))"
  shows "rows (preprocess_data df) =
           map (map (\<lambda>x. if x = NaN then Number 0 else x)) (rows (drop_duplicates (impute df)))
         \<and> columns (preprocess_data df) = columns df
         \<and> (\<forall>k < length (columns df).
                snd (columns df ! k) \<notin> {Float64, Int64, Float32, Int32} \<longrightarrow>
                get_col k (impute df) = get_col k df)"
proof -
  have "k \<notin> set (numeric_cols df)"
    if "snd (columns df ! k) \<notin> {Float64, Int64, Float32, Int32}" for k
    using that by (simp add: numeric_cols_def)
  then have "get_col k (impute df) = get_col k df"
    if "snd (columns df ! k) \<notin> {Float64, Int64, Float32, Int32}" for k
    using that by (simp add: impute_def get_col_foldl_impute_col_other)
  moreover have "fillna (Number 0) = map (\<lambda>x. if x = NaN then Number 0 else x)"
    by (rule ext) (simp add: fillna_def)
  ultimately show ?thesis
    using assms
    by (simp add: preprocess_data_def Let_def fillna_frame_def drop_duplicates_def columns_impute)
qed

section \<open>Training\<close>

lemma fit_and_report_not_NaN: "fit_and_report lib df k \<noteq> Inl NaN_values_detected"
  by (simp add: fit_and_report_def split: sum.splits prod.splits)

text \<open>
  C3. \<^verbatim>\<open>train_model\<close> raises its error about missing values if and only if the table
  that remains once the \<^verbatim>\<open>CUST_ID\<close> column is dropped contains a missing value. When
  there is none, that table goes to standardization as it is, with nothing filled in; a
  table without a \<^verbatim>\<open>CUST_ID\<close> column is the table read.
\<close>

theorem train_model_nan_check:
  "(train_model lib df k = Inl NaN_values_detected \<longleftrightarrow> 0 < isnull_sum (drop_cust_id df))
   \<and> (isnull_sum (drop_cust_id df) = 0 \<longrightarrow>
        train_model lib df k = fit_and_report lib (drop_cust_id df) k)
   \<and> (''CUST_ID'' \<notin> set (map fst (columns df)) \<longrightarrow> drop_cust_id df = df)"
  by (simp add: train_model_def Let_def fit_and_report_not_NaN drop_cust_id_def)

text \<open>
  C8. When \<^verbatim>\<open>train_model\<close> completes, the \<open>n_clusters\<close> field of the metrics it writes
  is the cluster count it was called with, whatever estimator the clustering returned;
  \<open>inertia\<close> is the estimator's inertia, \<open>n_samples\<close> and \<open>n_features\<close> are the numbers
  of rows and of columns of the table that was trained on.
\<close>

theorem train_model_metrics:
  assumes "train_model lib df k = Inr (artifact, m)"
  shows "n_clusters m = k
         \<and> inertia m = kmeans_inertia lib (fst artifact)
         \<and> n_samples m = length (rows (drop_cust_id df))
         \<and> n_features m = length (columns (drop_cust_id df))"
  using assms
  by (auto simp: train_model_def Let_def fit_and_report_def split: if_splits sum.splits prod.splits)

section \<open>The sample tables, evaluated\<close>

lemma impute_balance_example:
  "impute balance_example =
     \<lparr>columns = [(''CUST_ID'', Object), (''BALANCE'', Float64)],
      rows = [[Text ''C1'', Number 100], [NaN, Number 200], [Text ''C3'', Number 300],
              [Text ''C3'', Number 300], [Text ''C5'', Number 200], [Text ''C6'', Number 100]]\<rparr>"
  by code_simp

lemma dedup_balance_example:
  "drop_duplicates (impute balance_example) =
     \<lparr>columns = [(''CUST_ID'', Object), (''BALANCE'', Float64)],
      rows = [[Text ''C1'', Number 100], [NaN, Number 200], [Text ''C3'', Number 300],
              [Text ''C5'', Number 200], [Text ''C6'', Number 100]]\<rparr>"
  by (simp add: impute_balance_example drop_duplicates_def keep_unmarked_def)

theorem imputer_fills_median_witness:
  "get_col (Suc 0) (impute balance_example) =
     [Number 100, Number 200, Number 300, Number 300, Number 200, Number 100]
   \<and> median (get_col (Suc 0) balance_example) = exact_median (get_col (Suc 0) balance_example)
   \<and> get_col 0 (impute all_missing_example) = [Number 0, Number 0]"
proof -
  have wf: "wf_frame balance_example"
    by code_simp
  have col: "get_col (Suc 0) balance_example =
               [Number 100, NaN, Number 300, Number 300, NaN, Number 100]"
    by (simp add: get_col_def balance_example_def)
  have j: "Suc 0 < length (columns balance_example)"
    and ty: "snd (columns balance_example ! Suc 0) \<in> {Float64, Int64, Float32, Int32}"
    by (simp_all add: balance_example_def)
  have miss: "NaN \<in> set (get_col (Suc 0) balance_example)"
    by (simp add: col)
  have med: "median [Number 100, NaN, Number 300, Number 300, NaN, Number 100] = Number 200"
    by code_simp
  have exact: "no_rounding [Number 100, NaN, Number 300, Number 300, NaN, Number 100]"
    by code_simp
  have wf': "wf_frame all_missing_example"
    by code_simp
  have col': "get_col 0 all_missing_example = [NaN, NaN]"
    by (simp add: get_col_def all_missing_example_def)
  have j': "0 < length (columns all_missing_example)"
    and ty': "snd (columns all_missing_example ! 0) \<in> {Float64, Int64, Float32, Int32}"
    by (simp_all add: all_missing_example_def)
  have miss': "NaN \<in> set (get_col 0 all_missing_example)"
    by (simp add: col')
  from imputer_fills_median [OF wf j ty miss] imputer_fills_median [OF wf' j' ty' miss']
  show ?thesis
    unfolding col col' using med exact by simp
qed

text \<open>
  The value filled in is a float64 result, not the median of the specification: for the
  balances 1 and \<open>2 ^ 53\<close> the sum rounds to \<open>2 ^ 53\<close>, and \<open>2 ^ 52\<close> is filled in where
  the median is \<open>2 ^ 52 + 1 / 2\<close>. And 0 is filled in for a column of which not every
  value is missing: the mean of the two infinities is NaN.
\<close>

theorem imputer_median_is_float64:
  "wf_frame rounding_example
   \<and> get_col 0 rounding_example = [Number 1, NaN, Number 9007199254740992]
   \<and> get_col 0 (impute rounding_example) =
       [Number 1, Number 4503599627370496, Number 9007199254740992]
   \<and> exact_median (get_col 0 rounding_example) = Number (9007199254740993 / 2)
   \<and> wf_frame infinite_example
   \<and> get_col 0 infinite_example = [PosInf, NegInf, NaN]
   \<and> get_col 0 (impute infinite_example) = [PosInf, NegInf, Number 0]"
  by code_simp

theorem drop_duplicates_keeps_first_witness:
  "rows (drop_duplicates (impute balance_example)) =
     [[Text ''C1'', Number 100], [NaN, Number 200], [Text ''C3'', Number 300],
      [Text ''C5'', Number 200], [Text ''C6'', Number 100]]"
  using drop_duplicates_keeps_first [of "impute balance_example"]
  by (simp add: impute_balance_example upt_rec)

theorem drop_duplicates_idempotent_witness:
  "drop_duplicates (drop_duplicates (impute balance_example)) =
     \<lparr>columns = [(''CUST_ID'', Object), (''BALANCE'', Float64)],
      rows = [[Text ''C1'', Number 100], [NaN, Number 200], [Text ''C3'', Number 300],
              [Text ''C5'', Number 200], [Text ''C6'', Number 100]]\<rparr>"
  using drop_duplicates_idempotent [of "impute balance_example"]
  by (simp add: dedup_balance_example)

theorem preprocess_data_no_missing_witness:
  "isnull_sum (preprocess_data balance_example) = 0 \<and> 0 < isnull_sum balance_example"
  using preprocess_data_no_missing [of balance_example]
  by (simp add: isnull_sum_def isnull_count_def balance_example_def)

theorem fallback_fills_every_column_witness:
  "rows (preprocess_data balance_example) =
     [[Text ''C1'', Number 100], [Number 0, Number 200], [Text ''C3'', Number 300],
      [Text ''C5'', Number 200], [Text ''C6'', Number 100]]
   \<and> get_col 0 (impute balance_example) = get_col 0 balance_example"
proof -
  have "0 < isnull_sum (drop_duplicates (impute balance_example))"
    by (simp add: dedup_balance_example isnull_sum_def isnull_count_def)
  note fallback = fallback_fills_every_column [OF this]
  have "rows (preprocess_data balance_example) =
          map (map (\<lambda>x. if x = NaN then Number 0 else x))
            (rows (drop_duplicates (impute balance_example)))"
    using fallback by blast
  moreover have "0 < length (columns balance_example)
      \<and> snd (columns balance_example ! 0) \<notin> {Float64, Int64, Float32, Int32}"
    by (simp add: balance_example_def)
  then have "get_col 0 (impute balance_example) = get_col 0 balance_example"
    using fallback by blast
  ultimately show ?thesis
    by (simp add: dedup_balance_example)
qed

theorem train_model_nan_check_witness:
  "train_model sklearn_ok balance_example 4 = Inl NaN_values_detected
   \<and> train_model sklearn_ok (preprocess_data balance_example) 4 =
       fit_and_report sklearn_ok (drop_cust_id (preprocess_data balance_example)) 4
   \<and> drop_cust_id all_missing_example = all_missing_example"
proof -
  have "''CUST_ID'' \<notin> set (map fst (columns all_missing_example))"
    by (simp add: all_missing_example_def)
  then have "drop_cust_id all_missing_example = all_missing_example"
    using train_model_nan_check [of sklearn_ok all_missing_example 4] by blast
  moreover
  have "0 < isnull_sum (drop_cust_id balance_example)"
    by (simp add: drop_cust_id_def drop_column_def balance_example_def isnull_sum_def
        isnull_count_def)
  moreover have "isnull_sum (drop_cust_id (preprocess_data balance_example)) = 0"
    by (simp add: preprocess_data_def Let_def dedup_balance_example isnull_sum_def
        isnull_count_def fillna_frame_def fillna_def drop_cust_id_def drop_column_def)
  ultimately show ?thesis
    using train_model_nan_check [of sklearn_ok balance_example 4]
      train_model_nan_check [of sklearn_ok "preprocess_data balance_example" 4]
    by simp
qed

text \<open>
  A missing customer identifier is dropped with its column before the check: here the
  table read contains a missing value, and \<^verbatim>\<open>train_model\<close> completes.
\<close>

theorem missing_identifier_passes_check:
  "0 < isnull_sum missing_id_example \<and> \<not> isl (train_model sklearn_ok missing_id_example 2)"
  by (simp add: missing_id_example_def isnull_sum_def isnull_count_def train_model_def
      drop_cust_id_def drop_column_def fit_and_report_def sklearn_ok_def)

theorem train_model_metrics_witness:
  "train_model sklearn_ok missing_id_example 2 =
     Inr (((), ()), \<lparr>n_clusters = 2, inertia = 0, n_samples = 3, n_features = 1\<rparr>)
   \<and> n_clusters \<lparr>n_clusters = 2, inertia = 0, n_samples = 3, n_features = 1\<rparr> = 2"
proof -
  have run: "train_model sklearn_ok missing_id_example 2 =
     Inr (((), ()), \<lparr>n_clusters = 2, inertia = 0, n_samples = 3, n_features = 1\<rparr>)"
    by (simp add: missing_id_example_def isnull_sum_def isnull_count_def train_model_def
      drop_cust_id_def drop_column_def fit_and_report_def sklearn_ok_def)
  from train_model_metrics [OF run] run show ?thesis
    by simp
qed

end
